theory Spec2Isabelle
  imports Main "HOL-Library.Sublist" "HOL-Library.Char_ord" "HOL-Library.List_Lexorder"
begin

section \<open>Values, exceptions and dictionaries\<close>

text \<open>
  A record of the upstream API is the result of \<^verbatim>\<open>response.json()\<close>: a tree of
  dictionaries, lists and scalars. Dictionaries keep their insertion order, so they are
  association lists; a Python dictionary has no duplicate keys. Numbers are Python
  integers; floating-point numbers are not represented.
\<close>

datatype json =
    JNull
  | JBool bool
  | JInt int
  | JStr string
  | JList "json list"
  | JDict "(string \<times> json) list"

datatype error =
    AttributeError | TypeError | ValueError | IndexError | ZeroDivisionError
  | OpenAlexClientError

type_synonym pydict = "(string \<times> json) list"

text \<open>\<^verbatim>\<open>d[k] = v\<close>: an existing key keeps its position, a new key goes last.\<close>

fun dict_set :: "('k \<times> 'v) list \<Rightarrow> 'k \<Rightarrow> 'v \<Rightarrow> ('k \<times> 'v) list" where
  "dict_set [] k v = [(k, v)]"
| "dict_set ((k', v') # d) k v =
     (if k' = k then (k, v) # d else (k', v') # dict_set d k v)"

text \<open>\<^verbatim>\<open>obj.get(key, default)\<close>: only a dictionary has the method.\<close>

fun py_get :: "json \<Rightarrow> string \<Rightarrow> json \<Rightarrow> error + json" where
  "py_get (JDict kvs) key dflt = Inr (case map_of kvs key of Some v \<Rightarrow> v | None \<Rightarrow> dflt)"
| "py_get JNull key dflt = Inl AttributeError"
| "py_get (JBool b) key dflt = Inl AttributeError"
| "py_get (JInt i) key dflt = Inl AttributeError"
| "py_get (JStr s) key dflt = Inl AttributeError"
| "py_get (JList xs) key dflt = Inl AttributeError"

text \<open>Truth value of an object, as \<^verbatim>\<open>if obj:\<close> tests it.\<close>

fun py_truthy :: "json \<Rightarrow> bool" where
  "py_truthy JNull = False"
| "py_truthy (JBool b) = b"
| "py_truthy (JInt i) = (i \<noteq> 0)"
| "py_truthy (JStr s) = (s \<noteq> [])"
| "py_truthy (JList xs) = (xs \<noteq> [])"
| "py_truthy (JDict kvs) = (kvs \<noteq> [])"

text \<open>Iterating an object: a dictionary gives its keys, a string its characters.\<close>

fun py_iter :: "json \<Rightarrow> error + json list" where
  "py_iter (JList xs) = Inr xs"
| "py_iter (JDict kvs) = Inr (map (\<lambda>kv. JStr (fst kv)) kvs)"
| "py_iter (JStr s) = Inr (map (\<lambda>c. JStr [c]) s)"
| "py_iter JNull = Inl TypeError"
| "py_iter (JBool b) = Inl TypeError"
| "py_iter (JInt i) = Inl TypeError"

text \<open>Lists and dictionaries cannot be members of a set.\<close>

fun py_hashable :: "json \<Rightarrow> bool" where
  "py_hashable (JList xs) = False"
| "py_hashable (JDict kvs) = False"
| "py_hashable JNull = True"
| "py_hashable (JBool b) = True"
| "py_hashable (JInt i) = True"
| "py_hashable (JStr s) = True"

text \<open>Equality of set members: \<^verbatim>\<open>True == 1\<close> and \<^verbatim>\<open>False == 0\<close>.\<close>

fun py_num :: "json \<Rightarrow> json" where
  "py_num (JBool b) = JInt (if b then 1 else 0)"
| "py_num JNull = JNull"
| "py_num (JInt i) = JInt i"
| "py_num (JStr s) = JStr s"
| "py_num (JList xs) = JList xs"
| "py_num (JDict kvs) = JDict kvs"

definition py_eq :: "json \<Rightarrow> json \<Rightarrow> bool" where
  "py_eq a b = (py_num a = py_num b)"

text \<open>
  A set is the list of its members in insertion order. The code only takes the single
  member of a one-element set or sorts the members, so the order Python iterates a set in
  plays no role.
\<close>

definition set_add :: "json list \<Rightarrow> json \<Rightarrow> json list" where
  "set_add s v = (if list_ex (\<lambda>x. py_eq x v) s then s else s @ [v])"

fun is_str :: "json \<Rightarrow> bool" where
  "is_str (JStr s) = True"
| "is_str JNull = False"
| "is_str (JBool b) = False"
| "is_str (JInt i) = False"
| "is_str (JList xs) = False"
| "is_str (JDict kvs) = False"

fun str_of :: "json \<Rightarrow> string" where
  "str_of (JStr s) = s"
| "str_of JNull = []"
| "str_of (JBool b) = []"
| "str_of (JInt i) = []"
| "str_of (JList xs) = []"
| "str_of (JDict kvs) = []"

section \<open>Strings\<close>

fun join :: "string \<Rightarrow> string list \<Rightarrow> string" where
  "join sep [] = []"
| "join sep [x] = x"
| "join sep (x # y # ys) = x @ sep @ join sep (y # ys)"

text \<open>\<^verbatim>\<open>sep.join(values)\<close> raises TypeError unless every item is a string.\<close>

definition py_join :: "string \<Rightarrow> json list \<Rightarrow> error + json" where
  "py_join sep vs =
     (if list_all is_str vs then Inr (JStr (join sep (map str_of vs))) else Inl TypeError)"

text \<open>
  \<^verbatim>\<open>sep.join(sorted(values))\<close>: sorting or joining raises TypeError as soon as one
  value is not a string; strings are compared lexicographically.
\<close>

definition py_join_sorted :: "string \<Rightarrow> json list \<Rightarrow> error + json" where
  "py_join_sorted sep vs =
     (if list_all is_str vs then Inr (JStr (join sep (sort (map str_of vs))))
      else Inl TypeError)"

text \<open>\<^verbatim>\<open>pat in s\<close> on strings.\<close>

fun str_contains :: "string \<Rightarrow> string \<Rightarrow> bool" where
  "str_contains pat [] = (pat = [])"
| "str_contains pat (c # cs) = (prefix pat (c # cs) \<or> str_contains pat cs)"

text \<open>\<^verbatim>\<open>path.replace(".", "_")\<close>.\<close>

definition replace_dots :: "string \<Rightarrow> string" where
  "replace_dots s = map (\<lambda>c. if c = CHR ''.'' then CHR ''_'' else c) s"

definition is_digit :: "char \<Rightarrow> bool" where
  "is_digit c = (c \<in> set ''0123456789'')"

definition digit_char :: "nat \<Rightarrow> char" where
  "digit_char n = ''0123456789'' ! (n mod 10)"

definition digit_val :: "char \<Rightarrow> nat" where
  "digit_val c = length (takeWhile (\<lambda>d. d \<noteq> c) ''0123456789'')"

text \<open>\<^verbatim>\<open>str(n)\<close> of a non-negative integer, as an f-string formats a list index.\<close>

fun str_of_nat :: "nat \<Rightarrow> string" where
  "str_of_nat n =
     (if n < 10 then [digit_char n] else str_of_nat (n div 10) @ [digit_char (n mod 10)])"

declare str_of_nat.simps [simp del]

subsection \<open>The pattern \<^verbatim>\<open>\[\d+\]\<close>\<close>

text \<open>
  \<open>match_index s\<close> matches the pattern at the start of \<open>s\<close> and returns what follows
  the match. The digits are taken greedily; a closing bracket is not a digit, so no
  shorter run of digits can match.
\<close>

definition match_index :: "string \<Rightarrow> string option" where
  "match_index s =
     (case s of
        [] \<Rightarrow> None
      | c # r \<Rightarrow>
          if c = CHR ''['' \<and> takeWhile is_digit r \<noteq> [] then
            (case dropWhile is_digit r of
               [] \<Rightarrow> None
             | d # rest \<Rightarrow> if d = CHR '']'' then Some rest else None)
          else None)"

lemma match_index_shorter: "match_index s = Some rest \<Longrightarrow> length rest < length s"
proof -
  assume m: "match_index s = Some rest"
  then obtain c r where s: "s = c # r"
    by (cases s) (auto simp: match_index_def)
  from m s obtain d where "dropWhile is_digit r = d # rest"
    by (auto simp: match_index_def split: if_splits list.splits)
  then have "length (d # rest) \<le> length r"
    by (metis length_dropWhile_le)
  with s show ?thesis by simp
qed

text \<open>\<^verbatim>\<open>re.search(r'\[\d+\]', key)\<close>: is there a match anywhere in the key.\<close>

fun re_search_index :: "string \<Rightarrow> bool" where
  "re_search_index [] = False"
| "re_search_index (c # r) = (match_index (c # r) \<noteq> None \<or> re_search_index r)"

text \<open>
  \<^verbatim>\<open>re.sub(r'\[\d+\]', '', key)\<close>: one pass from left to right that drops every match and
  resumes right after it.
\<close>

function re_sub_index :: "string \<Rightarrow> string" where
  "re_sub_index [] = []"
| "re_sub_index (c # r) =
     (case match_index (c # r) of
        Some rest \<Rightarrow> re_sub_index rest
      | None \<Rightarrow> c # re_sub_index r)"
  by pat_completeness auto
termination
  by (relation "measure length") (auto dest: match_index_shorter)

section \<open>The parser\<close>

subsection \<open>\<^verbatim>\<open>merge_and_deduplicate\<close>\<close>

text \<open>
  The loop over \<^verbatim>\<open>data.items()\<close>. \<open>merged_data\<close> is the \<^verbatim>\<open>defaultdict(set)\<close>. A value
  that is a list or a dictionary cannot enter a set: TypeError, which nothing catches.
\<close>

definition merge_step :: "(string \<times> json list) list \<Rightarrow> string \<Rightarrow> json \<Rightarrow> (string \<times> json list) list" where
  "merge_step merged_data key v =
     (if re_search_index key then
        (let normalized_key = re_sub_index key in
         dict_set merged_data normalized_key
           (set_add (case map_of merged_data normalized_key of Some s \<Rightarrow> s | None \<Rightarrow> []) v))
      else dict_set merged_data key [v])"

fun merge_loop :: "(string \<times> json list) list \<Rightarrow> pydict \<Rightarrow> error + (string \<times> json list) list" where
  "merge_loop merged_data [] = Inr merged_data"
| "merge_loop merged_data ((key, v) # rest) =
     (if py_hashable v then merge_loop (merge_step merged_data key v) rest
      else Inl TypeError)"

text \<open>The final dictionary comprehension; it stops at the first item that raises.\<close>

definition merge_value :: "json list \<Rightarrow> error + json" where
  "merge_value v = (if length v > 1 then py_join_sorted ''|'' v else Inr (hd v))"

fun merge_finish :: "(string \<times> json list) list \<Rightarrow> error + pydict" where
  "merge_finish [] = Inr []"
| "merge_finish ((k, v) # rest) =
     (case merge_value v of
        Inl e \<Rightarrow> Inl e
      | Inr x \<Rightarrow> (case merge_finish rest of Inl e \<Rightarrow> Inl e | Inr out \<Rightarrow> Inr ((k, x) # out)))"

definition merge_and_deduplicate :: "pydict \<Rightarrow> error + pydict" where
  "merge_and_deduplicate data =
     (case merge_loop [] data of Inl e \<Rightarrow> Inl e | Inr merged_data \<Rightarrow> merge_finish merged_data)"

subsection \<open>\<^verbatim>\<open>find_display_names\<close>\<close>

text \<open>The generator, as the list of the pairs it yields, in order.\<close>

definition new_path :: "string \<Rightarrow> string \<Rightarrow> string" where
  "new_path path key = (if path \<noteq> [] then path @ ''.'' @ key else key)"

definition index_path :: "string \<Rightarrow> nat \<Rightarrow> string" where
  "index_path path i = path @ ''['' @ str_of_nat i @ '']''"

fun find_display_names :: "json \<Rightarrow> string \<Rightarrow> (string \<times> json) list"
  and fdn_items :: "(string \<times> json) list \<Rightarrow> string \<Rightarrow> (string \<times> json) list"
  and fdn_elems :: "json list \<Rightarrow> nat \<Rightarrow> string \<Rightarrow> (string \<times> json) list"
where
  "find_display_names (JDict kvs) path = fdn_items kvs path"
| "find_display_names (JList xs) path = fdn_elems xs 0 path"
| "find_display_names JNull path = []"
| "find_display_names (JBool b) path = []"
| "find_display_names (JInt i) path = []"
| "find_display_names (JStr s) path = []"
| "fdn_items [] path = []"
| "fdn_items ((key, v) # rest) path =
     (if str_contains ''display_name'' key then [(new_path path key, v)]
      else find_display_names v (new_path path key)) @ fdn_items rest path"
| "fdn_elems [] i path = []"
| "fdn_elems (item # rest) i path =
     find_display_names item (index_path path i) @ fdn_elems rest (Suc i) path"

subsection \<open>\<^verbatim>\<open>extract_unique_country_codes\<close>\<close>

text \<open>
  \<^verbatim>\<open>author.get('countries', [])\<close> needs a dictionary, \<^verbatim>\<open>country_codes.update\<close> an
  iterable of hashable items, and the final join strings.
\<close>

fun country_loop :: "json list \<Rightarrow> json list \<Rightarrow> error + json list" where
  "country_loop country_codes [] = Inr country_codes"
| "country_loop country_codes (author # rest) =
     (case py_get author ''countries'' (JList []) of
        Inl e \<Rightarrow> Inl e
      | Inr cs \<Rightarrow>
          (case py_iter cs of
             Inl e \<Rightarrow> Inl e
           | Inr items \<Rightarrow>
               if list_all py_hashable items
               then country_loop (foldl set_add country_codes items) rest
               else Inl TypeError))"

definition extract_unique_country_codes :: "json \<Rightarrow> error + json" where
  "extract_unique_country_codes authorships =
     (case py_iter authorships of
        Inl e \<Rightarrow> Inl e
      | Inr authors \<Rightarrow>
          (case country_loop [] authors of
             Inl e \<Rightarrow> Inl e
           | Inr country_codes \<Rightarrow> py_join_sorted ''|'' country_codes))"

subsection \<open>\<^verbatim>\<open>convert_publication_date\<close>\<close>

text \<open>
  \<^verbatim>\<open>datetime.strptime(s, '%Y-%m-%d')\<close> is the standard library's: it matches the start of
  \<open>s\<close> against
  \<^verbatim>\<open>(\d\d\d\d)-(1[0-2]|0[1-9]|[1-9])-(3[0-1]|[1-2]\d|0[1-9]|[1-9]| [1-9])\<close>,
  rejects text left over after the match, and builds the date, which rejects year 0 and a
  day the month does not have. Each failure is a ValueError. The alternatives of a group
  are listed in the order the matcher tries them.
\<close>

definition alts_month :: "string \<Rightarrow> (nat \<times> string) list" where
  "alts_month s =
     (case s of
        c1 # c2 # r \<Rightarrow>
          (if c1 = CHR ''1'' \<and> c2 \<in> set ''012'' then [(10 + digit_val c2, r)] else []) @
          (if c1 = CHR ''0'' \<and> c2 \<in> set ''123456789'' then [(digit_val c2, r)] else []) @
          (if c1 \<in> set ''123456789'' then [(digit_val c1, c2 # r)] else [])
      | [c1] \<Rightarrow> (if c1 \<in> set ''123456789'' then [(digit_val c1, [])] else [])
      | [] \<Rightarrow> [])"

definition alts_day :: "string \<Rightarrow> (nat \<times> string) list" where
  "alts_day s =
     (case s of
        c1 # c2 # r \<Rightarrow>
          (if c1 = CHR ''3'' \<and> c2 \<in> set ''01'' then [(30 + digit_val c2, r)] else []) @
          (if c1 \<in> set ''12'' \<and> is_digit c2 then [(10 * digit_val c1 + digit_val c2, r)] else []) @
          (if c1 = CHR ''0'' \<and> c2 \<in> set ''123456789'' then [(digit_val c2, r)] else []) @
          (if c1 \<in> set ''123456789'' then [(digit_val c1, c2 # r)] else []) @
          (if c1 = CHR '' '' \<and> c2 \<in> set ''123456789'' then [(digit_val c2, r)] else [])
      | [c1] \<Rightarrow> (if c1 \<in> set ''123456789'' then [(digit_val c1, [])] else [])
      | [] \<Rightarrow> [])"

definition match_month_day :: "string \<Rightarrow> (nat \<times> nat \<times> string) list" where
  "match_month_day s =
     concat (map (\<lambda>(m, r).
       (case r of
          [] \<Rightarrow> []
        | c # r' \<Rightarrow> if c = CHR ''-'' then map (\<lambda>(d, r''). (m, d, r'')) (alts_day r') else []))
       (alts_month s))"

definition is_leap :: "nat \<Rightarrow> bool" where
  "is_leap y = (y mod 4 = 0 \<and> (y mod 100 \<noteq> 0 \<or> y mod 400 = 0))"

definition days_in_month :: "nat \<Rightarrow> nat \<Rightarrow> nat" where
  "days_in_month y m =
     (if m = 2 then (if is_leap y then 29 else 28)
      else if m \<in> {4, 6, 9, 11} then 30 else 31)"

definition valid_date :: "nat \<Rightarrow> nat \<Rightarrow> nat \<Rightarrow> bool" where
  "valid_date y m d = (1 \<le> y \<and> 1 \<le> m \<and> m \<le> 12 \<and> 1 \<le> d \<and> d \<le> days_in_month y m)"

text \<open>\<open>None\<close> is the ValueError.\<close>

definition strptime_ymd :: "string \<Rightarrow> (nat \<times> nat \<times> nat) option" where
  "strptime_ymd s =
     (case s of
        y1 # y2 # y3 # y4 # c # r \<Rightarrow>
          if is_digit y1 \<and> is_digit y2 \<and> is_digit y3 \<and> is_digit y4 \<and> c = CHR ''-'' then
            (case match_month_day r of
               [] \<Rightarrow> None
             | (m, d, rest) # _ \<Rightarrow>
                 (let y = 1000 * digit_val y1 + 100 * digit_val y2 + 10 * digit_val y3 + digit_val y4
                  in if rest = [] \<and> valid_date y m d then Some (y, m, d) else None))
          else None
      | _ \<Rightarrow> None)"

text \<open>\<^verbatim>\<open>dt.isoformat()\<close> of a date at midnight: \<^verbatim>\<open>%04d-%02d-%02dT00:00:00\<close>.\<close>

definition pad2 :: "nat \<Rightarrow> string" where
  "pad2 n = [digit_char (n div 10), digit_char n]"

definition pad4 :: "nat \<Rightarrow> string" where
  "pad4 n = [digit_char (n div 1000), digit_char (n div 100), digit_char (n div 10), digit_char n]"

definition isoformat :: "nat \<Rightarrow> nat \<Rightarrow> nat \<Rightarrow> string" where
  "isoformat y m d = pad4 y @ ''-'' @ pad2 m @ ''-'' @ pad2 d @ ''T00:00:00''"

text \<open>
  Only ValueError is caught and turned into \<^verbatim>\<open>None\<close>; \<^verbatim>\<open>strptime\<close> of an object that is
  not a string raises TypeError, which leaves the function.
\<close>

fun convert_publication_date :: "json \<Rightarrow> error + json" where
  "convert_publication_date (JStr s) =
     (case strptime_ymd s of
        Some (y, m, d) \<Rightarrow> Inr (JStr (isoformat y m d @ ''Z''))
      | None \<Rightarrow> Inr JNull)"
| "convert_publication_date JNull = Inl TypeError"
| "convert_publication_date (JBool b) = Inl TypeError"
| "convert_publication_date (JInt i) = Inl TypeError"
| "convert_publication_date (JList xs) = Inl TypeError"
| "convert_publication_date (JDict kvs) = Inl TypeError"

subsection \<open>\<^verbatim>\<open>extract_abstract\<close>\<close>

text \<open>A position is an integer; Python takes a boolean for one too.\<close>

fun py_int :: "json \<Rightarrow> int option" where
  "py_int (JInt i) = Some i"
| "py_int (JBool b) = Some (if b then 1 else 0)"
| "py_int JNull = None"
| "py_int (JStr s) = None"
| "py_int (JList xs) = None"
| "py_int (JDict kvs) = None"

fun py_int_list :: "json \<Rightarrow> int list option" where
  "py_int_list (JList xs) =
     (if list_all (\<lambda>x. py_int x \<noteq> None) xs then Some (map (\<lambda>x. the (py_int x)) xs) else None)"
| "py_int_list JNull = None"
| "py_int_list (JBool b) = None"
| "py_int_list (JInt i) = None"
| "py_int_list (JStr s) = None"
| "py_int_list (JDict kvs) = None"

definition index_positions :: "(string \<times> json) list \<Rightarrow> (string \<times> int list) list option" where
  "index_positions kvs =
     (if list_all (\<lambda>kv. py_int_list (snd kv) \<noteq> None) kvs
      then Some (map (\<lambda>kv. (fst kv, the (py_int_list (snd kv)))) kvs) else None)"

fun py_max :: "int list \<Rightarrow> int" where
  "py_max [] = 0"
| "py_max (x # xs) = fold max xs x"

text \<open>\<^verbatim>\<open>xs[i] = v\<close>: a negative index counts from the end, an index out of range raises.\<close>

definition list_store :: "'a list \<Rightarrow> int \<Rightarrow> 'a \<Rightarrow> 'a list option" where
  "list_store xs i v =
     (let n = int (length xs) in
      if 0 \<le> i \<and> i < n then Some (xs[nat i := v])
      else if - n \<le> i \<and> i < 0 then Some (xs[nat (n + i) := v])
      else None)"

fun place_word :: "string list \<Rightarrow> string \<Rightarrow> int list \<Rightarrow> string list option" where
  "place_word abstract_words word [] = Some abstract_words"
| "place_word abstract_words word (pos # rest) =
     (case list_store abstract_words pos word of
        None \<Rightarrow> None
      | Some aw \<Rightarrow> place_word aw word rest)"

fun place_all :: "string list \<Rightarrow> (string \<times> int list) list \<Rightarrow> string list option" where
  "place_all abstract_words [] = Some abstract_words"
| "place_all abstract_words ((word, positions) # rest) =
     (case place_word abstract_words word positions of
        None \<Rightarrow> None
      | Some aw \<Rightarrow> place_all aw rest)"

definition abstract_length :: "(string \<times> int list) list \<Rightarrow> int" where
  "abstract_length idx = py_max (map (\<lambda>wp. py_max (snd wp)) idx) + 1"

text \<open>
  The body of the function once the index is known to be a non-empty dictionary of lists
  of integers: \<^verbatim>\<open>max\<close> of an empty list of positions is a ValueError, a position outside
  the allocated list an IndexError.
\<close>

definition abstract_of :: "(string \<times> int list) list \<Rightarrow> error + json" where
  "abstract_of idx =
     (if list_ex (\<lambda>wp. snd wp = []) idx then Inl ValueError
      else
        (case place_all (replicate (nat (abstract_length idx)) []) idx of
           None \<Rightarrow> Inl IndexError
         | Some abstract_words \<Rightarrow>
             Inr (JStr (join '' '' (filter (\<lambda>word. word \<noteq> []) abstract_words)))))"

text \<open>
  A truthy object that is not a dictionary has no \<^verbatim>\<open>values\<close>. In a dictionary one of
  whose values is not a list of integers, \<^verbatim>\<open>max\<close> or the addition of 1 raises; the model
  reports TypeError there, where Python may raise another class of exception.
\<close>

fun extract_abstract :: "json \<Rightarrow> error + json" where
  "extract_abstract abstract_inverted_index =
     (if \<not> py_truthy abstract_inverted_index then Inr (JStr ''No abstract available'')
      else
        (case abstract_inverted_index of
           JDict kvs \<Rightarrow>
             (case index_positions kvs of
                None \<Rightarrow> Inl TypeError
              | Some idx \<Rightarrow> abstract_of idx)
         | _ \<Rightarrow> Inl AttributeError))"

subsection \<open>\<^verbatim>\<open>parse_work\<close>\<close>

text \<open>
  Every block of the function is a \<^verbatim>\<open>try\<close> whose handler only logs, so a block is a
  function from \<open>parsed_data\<close> to \<open>parsed_data\<close>: where the block raises, the entries
  it had stored before remain and the rest of the block is skipped.
\<close>

definition basic_fields :: "string list" where
  "basic_fields = [''id'', ''doi'', ''title'', ''publication_year'', ''language'', ''type'']"

definition count_fields :: "string list" where
  "count_fields = [''referenced_works_count'', ''cited_by_count'', ''countries_distinct_count'',
     ''institutions_distinct_count'', ''locations_count'', ''fwci'']"

text \<open>One \<^verbatim>\<open>try\<close> per field; \<^verbatim>\<open>doi\<close> alone defaults to the empty string.\<close>

fun field_loop :: "json \<Rightarrow> string list \<Rightarrow> pydict \<Rightarrow> pydict" where
  "field_loop work_data [] parsed_data = parsed_data"
| "field_loop work_data (field # rest) parsed_data =
     field_loop work_data rest
       (case py_get work_data field (if field = ''doi'' then JStr [] else JNull) of
          Inl e \<Rightarrow> parsed_data
        | Inr v \<Rightarrow> dict_set parsed_data field v)"

definition step_ids :: "json \<Rightarrow> pydict \<Rightarrow> pydict" where
  "step_ids work_data parsed_data =
     (case py_get work_data ''ids'' (JDict []) of
        Inl e \<Rightarrow> parsed_data
      | Inr ids \<Rightarrow>
          (case py_get ids ''pmid'' (JStr []) of
             Inl e \<Rightarrow> parsed_data
           | Inr pmid \<Rightarrow>
               (case py_get ids ''mag'' (JStr []) of
                  Inl e \<Rightarrow> dict_set parsed_data ''pmid'' pmid
                | Inr mag \<Rightarrow> dict_set (dict_set parsed_data ''pmid'' pmid) ''mag'' mag)))"

fun is_dict :: "json \<Rightarrow> bool" where
  "is_dict (JDict kvs) = True"
| "is_dict JNull = False"
| "is_dict (JBool b) = False"
| "is_dict (JInt i) = False"
| "is_dict (JStr s) = False"
| "is_dict (JList xs) = False"

definition step_apc_paid :: "json \<Rightarrow> pydict \<Rightarrow> pydict" where
  "step_apc_paid work_data parsed_data =
     (case py_get work_data ''apc_paid'' JNull of
        Inl e \<Rightarrow> parsed_data
      | Inr apc_paid_value \<Rightarrow>
          if is_dict apc_paid_value then
            (case py_get apc_paid_value ''value_usd'' JNull of
               Inl e \<Rightarrow> parsed_data
             | Inr v \<Rightarrow> dict_set parsed_data ''apc_paid'' v)
          else dict_set parsed_data ''apc_paid'' apc_paid_value)"

definition step_primary_location :: "json \<Rightarrow> pydict \<Rightarrow> pydict" where
  "step_primary_location work_data parsed_data =
     (case py_get work_data ''primary_location'' (JDict []) of
        Inl e \<Rightarrow> parsed_data
      | Inr loc \<Rightarrow>
          (case py_get loc ''source'' (JDict []) of
             Inl e \<Rightarrow> parsed_data
           | Inr primary_location \<Rightarrow>
               (case py_get primary_location ''display_name'' JNull of
                  Inl e \<Rightarrow> parsed_data
                | Inr dn \<Rightarrow>
                    (case py_get primary_location ''host_organization_name'' JNull of
                       Inl e \<Rightarrow> dict_set parsed_data ''primary_location_display_name'' dn
                     | Inr hn \<Rightarrow>
                         dict_set (dict_set parsed_data ''primary_location_display_name'' dn)
                           ''primary_location_host_organization_name'' hn))))"

definition step_publication_date :: "json \<Rightarrow> pydict \<Rightarrow> pydict" where
  "step_publication_date work_data parsed_data =
     (case py_get work_data ''publication_date'' JNull of
        Inl e \<Rightarrow> parsed_data
      | Inr publication_date \<Rightarrow>
          if py_truthy publication_date then
            (case convert_publication_date publication_date of
               Inl e \<Rightarrow> parsed_data
             | Inr v \<Rightarrow> dict_set parsed_data ''publication_date'' v)
          else parsed_data)"

fun percentile_loop :: "(string \<times> json) list \<Rightarrow> pydict \<Rightarrow> pydict" where
  "percentile_loop [] parsed_data = parsed_data"
| "percentile_loop ((key, v) # rest) parsed_data =
     percentile_loop rest (dict_set parsed_data (''percentiles_'' @ key) v)"

text \<open>Only a dictionary has \<^verbatim>\<open>items\<close>.\<close>

definition step_percentiles :: "json \<Rightarrow> pydict \<Rightarrow> pydict" where
  "step_percentiles work_data parsed_data =
     (case py_get work_data ''citation_normalized_percentile'' (JDict []) of
        Inl e \<Rightarrow> parsed_data
      | Inr percentiles \<Rightarrow>
          (case percentiles of
             JDict kvs \<Rightarrow> percentile_loop kvs parsed_data
           | _ \<Rightarrow> parsed_data))"

definition step_open_access :: "json \<Rightarrow> pydict \<Rightarrow> pydict" where
  "step_open_access work_data parsed_data =
     (case py_get work_data ''open_access'' (JDict []) of
        Inl e \<Rightarrow> parsed_data
      | Inr open_access \<Rightarrow>
          (case py_get open_access ''is_oa'' JNull of
             Inl e \<Rightarrow> parsed_data
           | Inr is_oa \<Rightarrow>
               (case py_get open_access ''oa_status'' JNull of
                  Inl e \<Rightarrow> dict_set parsed_data ''open_access_is_oa'' is_oa
                | Inr oa_status \<Rightarrow>
                    dict_set (dict_set parsed_data ''open_access_is_oa'' is_oa)
                      ''open_access_oa_status'' oa_status)))"

text \<open>The loop over \<^verbatim>\<open>enumerate(grants)\<close> stops at the first grant without \<^verbatim>\<open>get\<close>.\<close>

fun grants_loop :: "json list \<Rightarrow> nat \<Rightarrow> pydict \<Rightarrow> pydict" where
  "grants_loop [] i parsed_data = parsed_data"
| "grants_loop (grant # rest) i parsed_data =
     (case py_get grant ''funder_display_name'' JNull of
        Inl e \<Rightarrow> parsed_data
      | Inr v \<Rightarrow>
          grants_loop rest (Suc i)
            (dict_set parsed_data (''grants['' @ str_of_nat i @ '']_funder_display_name'') v))"

definition step_grants :: "json \<Rightarrow> pydict \<Rightarrow> pydict" where
  "step_grants work_data parsed_data =
     (case py_get work_data ''grants'' (JList []) of
        Inl e \<Rightarrow> parsed_data
      | Inr grants \<Rightarrow>
          (case py_iter grants of
             Inl e \<Rightarrow> parsed_data
           | Inr gs \<Rightarrow> grants_loop gs 0 parsed_data))"

definition step_countries_codes :: "json \<Rightarrow> pydict \<Rightarrow> pydict" where
  "step_countries_codes work_data parsed_data =
     (case py_get work_data ''authorships'' (JList []) of
        Inl e \<Rightarrow> parsed_data
      | Inr authorships \<Rightarrow>
          (case extract_unique_country_codes authorships of
             Inl e \<Rightarrow> parsed_data
           | Inr v \<Rightarrow> dict_set parsed_data ''countries_codes'' v))"

text \<open>The display names: which paths are kept, the lists per path, the cap, the join.\<close>

definition dn_keep :: "string \<Rightarrow> bool" where
  "dn_keep path =
     ((str_contains ''authorships'' path \<or> str_contains ''topics'' path \<or>
       str_contains ''keywords'' path \<or> str_contains ''sustainable_development_goals'' path)
      \<and> str_contains ''display_name'' path)"

fun dn_collect :: "(string \<times> json) list \<Rightarrow> (string \<times> json list) list \<Rightarrow> (string \<times> json list) list" where
  "dn_collect [] display_names = display_names"
| "dn_collect ((path, v) # rest) display_names =
     dn_collect rest
       (if dn_keep path then
          dict_set display_names path
            ((case map_of display_names path of None \<Rightarrow> [] | Some vs \<Rightarrow> vs) @ [v])
        else display_names)"

definition dn_cap :: "(string \<times> json list) list \<Rightarrow> (string \<times> json list) list" where
  "dn_cap display_names =
     map (\<lambda>(path, vs). (path, if length vs > 10 then take 10 vs else vs)) display_names"

fun dn_emit :: "(string \<times> json list) list \<Rightarrow> pydict \<Rightarrow> pydict" where
  "dn_emit [] parsed_data = parsed_data"
| "dn_emit ((path, vs) # rest) parsed_data =
     (case py_join ''|'' vs of
        Inl e \<Rightarrow> parsed_data
      | Inr v \<Rightarrow> dn_emit rest (dict_set parsed_data (replace_dots path) v))"

definition step_display_names :: "json \<Rightarrow> pydict \<Rightarrow> pydict" where
  "step_display_names work_data parsed_data =
     dn_emit (dn_cap (dn_collect (find_display_names work_data []) [])) parsed_data"

definition step_abstract :: "json \<Rightarrow> pydict \<Rightarrow> pydict" where
  "step_abstract work_data parsed_data =
     (case py_get work_data ''abstract_inverted_index'' JNull of
        Inl e \<Rightarrow> parsed_data
      | Inr idx \<Rightarrow>
          (case extract_abstract idx of
             Inl e \<Rightarrow> parsed_data
           | Inr v \<Rightarrow> dict_set parsed_data ''abstract'' v))"

text \<open>\<open>parsed_data\<close> as it stands when the function reaches its last line.\<close>

definition parsed_data_of :: "json \<Rightarrow> bool \<Rightarrow> pydict" where
  "parsed_data_of work_data include_abstract =
     (let pd = field_loop work_data basic_fields [];
          pd = step_ids work_data pd;
          pd = step_apc_paid work_data pd;
          pd = field_loop work_data count_fields pd;
          pd = step_primary_location work_data pd;
          pd = step_publication_date work_data pd;
          pd = step_percentiles work_data pd;
          pd = step_open_access work_data pd;
          pd = step_grants work_data pd;
          pd = step_countries_codes work_data pd;
          pd = step_display_names work_data pd
      in if include_abstract then step_abstract work_data pd else pd)"

text \<open>The last line is outside every \<^verbatim>\<open>try\<close>: what the merge raises, the function raises.\<close>

definition parse_work :: "json \<Rightarrow> bool \<Rightarrow> error + pydict" where
  "parse_work work_data include_abstract =
     merge_and_deduplicate (parsed_data_of work_data include_abstract)"

section \<open>The client\<close>









subsection \<open>Well-formed inverted indexes\<close>

text \<open>
  An abstract inverted index maps each word to the positions where it occurs, counted
  from 0. \<open>index_json\<close> is the record the API sends for it. \<open>slot_word idx p\<close> is
  the word the specification puts at position \<open>p\<close>: the word that lists \<open>p\<close>, the
  last such word of the index when several do, and the empty string when none does.
\<close>

definition index_json :: "(string \<times> nat list) list \<Rightarrow> json" where
  "index_json idx = JDict (map (\<lambda>wp. (fst wp, JList (map (\<lambda>p. JInt (int p)) (snd wp)))) idx)"

definition max_position :: "(string \<times> nat list) list \<Rightarrow> nat" where
  "max_position idx = Max (set (concat (map snd idx)))"

definition slot_word :: "(string \<times> nat list) list \<Rightarrow> nat \<Rightarrow> string" where
  "slot_word idx p =
     (case filter (\<lambda>wp. p \<in> set (snd wp)) idx of [] \<Rightarrow> [] | w # ws \<Rightarrow> fst (last (w # ws)))"

definition int_index :: "(string \<times> nat list) list \<Rightarrow> (string \<times> int list) list" where
  "int_index idx = map (\<lambda>wp. (fst wp, map int (snd wp))) idx"

definition place_nat :: "(string \<times> nat list) list \<Rightarrow> string list \<Rightarrow> string list" where
  "place_nat idx aw = fold (\<lambda>wp a. fold (\<lambda>p a. a[p := fst wp]) (snd wp) a) idx aw"

definition the_cat :: "(string \<times> nat list) list" where
  "the_cat = [(''The'', [0, 4]), (''cat'', [1]), (''sat'', [2]), (''on'', [3])]"

subsection \<open>Records without the values of display names\<close>

text \<open>
  \<open>redact obj\<close> is \<open>obj\<close> with the value of every key that contains
  \<^verbatim>\<open>display_name\<close> replaced by \<^verbatim>\<open>None\<close>, so that nothing lies inside such a value.
\<close>

fun redact :: "json \<Rightarrow> json"
  and redact_items :: "(string \<times> json) list \<Rightarrow> (string \<times> json) list"
  and redact_elems :: "json list \<Rightarrow> json list"
where
  "redact (JDict kvs) = JDict (redact_items kvs)"
| "redact (JList xs) = JList (redact_elems xs)"
| "redact JNull = JNull"
| "redact (JBool b) = JBool b"
| "redact (JInt i) = JInt i"
| "redact (JStr s) = JStr s"
| "redact_items [] = []"
| "redact_items ((key, v) # rest) =
     (key, if str_contains ''display_name'' key then JNull else redact v) # redact_items rest"
| "redact_elems [] = []"
| "redact_elems (item # rest) = redact item # redact_elems rest"

definition nested_names :: json where
  "nested_names =
     JDict [(''topics'', JList [JDict [(''display_name'', JDict [(''display_name'', JStr ''inner'')])]])]"

subsection \<open>The merge, name by name\<close>

text \<open>
  \<open>normalize_key\<close> is the name under which the merge files a raw key. \<open>group_of name
  data\<close> replays the loop of \<^verbatim>\<open>merge_and_deduplicate\<close> for one name: an indexed key adds
  its value to the set of the name, a key without an index replaces the set by its own
  value. \<open>merge_result\<close> is what the final comprehension makes of a set.
\<close>

definition normalize_key :: "string \<Rightarrow> string" where
  "normalize_key key = (if re_search_index key then re_sub_index key else key)"

definition group_step :: "string \<Rightarrow> json list \<Rightarrow> string \<times> json \<Rightarrow> json list" where
  "group_step name s kv =
     (if normalize_key (fst kv) = name
      then (if re_search_index (fst kv) then set_add s (snd kv) else [snd kv])
      else s)"

definition group_of :: "string \<Rightarrow> pydict \<Rightarrow> json list" where
  "group_of name data = foldl (group_step name) [] data"

definition merge_result :: "json list \<Rightarrow> json" where
  "merge_result s = (if length s > 1 then JStr (join ''|'' (sort (map str_of s))) else hd s)"

definition members :: "(string \<times> json list) list \<Rightarrow> string \<Rightarrow> json list" where
  "members merged_data name = (case map_of merged_data name of None \<Rightarrow> [] | Some s \<Rightarrow> s)"

definition merge_item :: "(string \<times> json list) list \<Rightarrow> string \<times> json \<Rightarrow> (string \<times> json list) list" where
  "merge_item merged_data kv = merge_step merged_data (fst kv) (snd kv)"

subsection \<open>What the server answers\<close>








subsection \<open>Records of authors\<close>

text \<open>
  \<open>work_of_authors names\<close> is a work whose \<^verbatim>\<open>authorships\<close> list one author per name, as
  the API nests them: \<^verbatim>\<open>{"author": {"display_name": name}}\<close>. \<open>flat_field r key\<close> is the
  value of \<open>key\<close> in the flat record \<open>r\<close>, if \<open>parse_work\<close> returned one.
\<close>

definition author :: "string \<Rightarrow> json" where
  "author name = JDict [(''author'', JDict [(''display_name'', JStr name)])]"

definition work_of_authors :: "string list \<Rightarrow> json" where
  "work_of_authors names = JDict [(''authorships'', JList (map author names))]"

definition fifteen_names :: "string list" where
  "fifteen_names =
     [''A01'', ''A02'', ''A03'', ''A04'', ''A05'', ''A06'', ''A07'', ''A08'', ''A09'', ''A10'',
      ''A11'', ''A12'', ''A13'', ''A14'', ''A15'']"

definition flat_field :: "error + pydict \<Rightarrow> string \<Rightarrow> json option" where
  "flat_field r key = (case r of Inl e \<Rightarrow> None | Inr out \<Rightarrow> map_of out key)"

subsection \<open>Records with the inside of display-name values emptied\<close>

text \<open>
  \<open>inner_redact\<close> keeps a record as it is down to every key that contains
  \<^verbatim>\<open>display_name\<close>, keeps the value of such a key, and empties (with \<open>redact\<close>) every
  display-name key that occurs strictly inside that value. Two values are \<open>sim\<close>ilar when
  both can be put in a set and are equal, or neither can; \<open>rel\<close> relates two intermediate
  dictionaries with the same keys in the same order and similar values.
\<close>

fun inner_redact :: "json \<Rightarrow> json"
  and inner_items :: "(string \<times> json) list \<Rightarrow> (string \<times> json) list"
  and inner_elems :: "json list \<Rightarrow> json list"
where
  "inner_redact (JDict kvs) = JDict (inner_items kvs)"
| "inner_redact (JList xs) = JList (inner_elems xs)"
| "inner_redact JNull = JNull"
| "inner_redact (JBool b) = JBool b"
| "inner_redact (JInt i) = JInt i"
| "inner_redact (JStr s) = JStr s"
| "inner_items [] = []"
| "inner_items ((key, v) # rest) =
     (key, if str_contains ''display_name'' key then redact v else inner_redact v) # inner_items rest"
| "inner_elems [] = []"
| "inner_elems (item # rest) = inner_redact item # inner_elems rest"

definition sim :: "json \<Rightarrow> json \<Rightarrow> bool" where
  "sim v w = (if py_hashable v then w = v else \<not> py_hashable w)"

definition rel :: "pydict \<Rightarrow> pydict \<Rightarrow> bool" where
  "rel pd pd' = list_all2 (\<lambda>a b. fst b = fst a \<and> sim (snd a) (snd b)) pd pd'"

text \<open>The lists collected by the display-name block, every value emptied.\<close>

definition redact_lists :: "(string \<times> json list) list \<Rightarrow> (string \<times> json list) list" where
  "redact_lists dn = map (\<lambda>pv. (fst pv, map redact (snd pv))) dn"

definition nested_topics :: json where
  "nested_topics =
     JDict [(''title'', JStr ''T''),
            (''topics'', JList [JDict [(''display_name'', JStr ''Physics'')],
                                JDict [(''display_name'', JDict [(''display_name'', JStr ''inner'')])]])]"

section \<open>Properties\<close>

subsection \<open>The final merge is outside the fault isolation\<close>

text \<open>
  C1. The record \<^verbatim>\<open>{"grants": [{"funder_display_name": "NSF"}, {}]}\<close> has two grants,
  the second without a funder name. Every extraction block succeeds and \<open>parsed_data\<close>
  holds \<^verbatim>\<open>grants[0]_funder_display_name = "NSF"\<close> and
  \<^verbatim>\<open>grants[1]_funder_display_name = None\<close>. The final merge puts both values into one
  set and sorts it, which raises TypeError; no handler surrounds the merge, so
  \<open>parse_work\<close> raises to its caller.
\<close>

theorem parse_work_raises_in_merge:
  "parse_work
     (JDict [(''grants'', JList [JDict [(''funder_display_name'', JStr ''NSF'')], JDict []])])
     False = Inl TypeError"
  by code_simp

subsection \<open>Reconstruction of the abstract\<close>

lemma py_int_list_nat: "py_int_list (JList (map (\<lambda>p. JInt (int p)) ps)) = Some (map int ps)"
  by (simp add: list_all_iff comp_def)

lemma index_positions_json:
  "index_positions (map (\<lambda>wp. (fst wp, JList (map (\<lambda>p. JInt (int p)) (snd wp)))) idx) = Some (int_index idx)"
  by (simp add: index_positions_def int_index_def list_all_iff comp_def py_int_list_nat del: py_int_list.simps)

lemma py_max_Max:
  assumes "xs \<noteq> []"
  shows "py_max xs = Max (set xs)"
proof (cases xs)
  case Nil
  with assms show ?thesis by simp
next
  case (Cons x ys)
  show ?thesis unfolding Cons py_max.simps by (rule Max.set_eq_fold [symmetric])
qed

lemma list_store_nat:
  "p < length aw \<Longrightarrow> list_store aw (int p) w = Some (aw[p := w])"
  by (simp add: list_store_def)

lemma place_word_nat:
  "\<forall>p \<in> set ps. p < length aw \<Longrightarrow>
   place_word aw w (map int ps) = Some (fold (\<lambda>p a. a[p := w]) ps aw)"
  by (induction ps arbitrary: aw) (simp_all add: list_store_nat)

lemma length_fold_upd: "length (fold (\<lambda>p a. a[p := w]) ps aw) = length aw"
  by (induction ps arbitrary: aw) simp_all

lemma nth_fold_upd:
  "q < length aw \<Longrightarrow> fold (\<lambda>p a. a[p := w]) ps aw ! q = (if q \<in> set ps then w else aw ! q)"
  by (induction ps arbitrary: aw) (auto simp: length_fold_upd nth_list_update)

lemma length_place_nat: "length (place_nat idx aw) = length aw"
  unfolding place_nat_def by (induction idx arbitrary: aw) (simp_all add: length_fold_upd)

lemma place_all_nat:
  "\<forall>wp \<in> set idx. \<forall>p \<in> set (snd wp). p < length aw \<Longrightarrow>
   place_all aw (int_index idx) = Some (place_nat idx aw)"
proof (induction idx arbitrary: aw)
  case Nil
  then show ?case by (simp add: int_index_def place_nat_def)
next
  case (Cons wp idx)
  obtain w ps where wp: "wp = (w, ps)" by (cases wp)
  let ?aw = "fold (\<lambda>p a. a[p := w]) ps aw"
  from Cons.prems wp have "place_word aw w (map int ps) = Some ?aw"
    by (intro place_word_nat) auto
  moreover have "place_all ?aw (int_index idx) = Some (place_nat idx ?aw)"
    using Cons.prems by (intro Cons.IH) (simp add: length_fold_upd)
  ultimately show ?case
    using wp by (simp add: int_index_def place_nat_def)
qed

lemma nth_place_nat:
  "q < length aw \<Longrightarrow>
   place_nat idx aw ! q =
     (case filter (\<lambda>wp. q \<in> set (snd wp)) idx of [] \<Rightarrow> aw ! q | w # ws \<Rightarrow> fst (last (w # ws)))"
proof (induction idx arbitrary: aw)
  case Nil
  then show ?case by (simp add: place_nat_def)
next
  case (Cons wp idx)
  let ?aw = "fold (\<lambda>p a. a[p := fst wp]) (snd wp) aw"
  have step: "place_nat (wp # idx) aw = place_nat idx ?aw"
    by (simp add: place_nat_def)
  have len: "q < length ?aw" using Cons.prems by (simp add: length_fold_upd)
  show ?case
    unfolding step Cons.IH[OF len]
    using Cons.prems by (auto simp: nth_fold_upd split: list.splits)
qed

lemma abstract_length_nat:
  assumes "idx \<noteq> []" and "\<forall>wp \<in> set idx. snd wp \<noteq> []"
  shows "abstract_length (int_index idx) = int (max_position idx) + 1"
proof -
  let ?all = "concat (map snd idx)"
  let ?ms = "map (\<lambda>wp. py_max (snd wp)) (int_index idx)"
  have ms: "?ms = map (\<lambda>wp. Max (set (map int (snd wp)))) idx"
    using assms(2) by (simp add: int_index_def comp_def py_max_Max)
  have ne: "?all \<noteq> []" using assms by (cases idx) auto
  have "py_max ?ms = Max (set ?ms)"
    using assms(1) by (intro py_max_Max) (simp add: int_index_def)
  also have "\<dots> = int (Max (set ?all))"
  proof (rule Max_eqI)
    show "finite (set ?ms)" by simp
  next
    fix y assume "y \<in> set ?ms"
    then obtain wp where wp: "wp \<in> set idx" and y: "y = Max (set (map int (snd wp)))"
      unfolding ms by auto
    from wp assms(2) have "y \<in> set (map int (snd wp))"
      unfolding y by (intro Max_in) auto
    then obtain p where p: "p \<in> set (snd wp)" and yp: "y = int p" by auto
    from p wp have "p \<in> set ?all" by auto
    then have "p \<le> Max (set ?all)" by (intro Max_ge) auto
    with yp show "y \<le> int (Max (set ?all))" by simp
  next
    have "Max (set ?all) \<in> set ?all" using ne by (intro Max_in) auto
    then obtain wp where wp: "wp \<in> set idx" and m: "Max (set ?all) \<in> set (snd wp)" by auto
    have fin: "finite (set (map int (snd wp)))" by simp
    have "int (Max (set ?all)) \<in> set (map int (snd wp))" using m by auto
    then have le: "int (Max (set ?all)) \<le> Max (set (map int (snd wp)))"
      using fin by (intro Max_ge)
    have "Max (set (map int (snd wp))) \<in> set (map int (snd wp))"
      using wp assms(2) by (intro Max_in) auto
    then obtain p where p: "p \<in> set (snd wp)" and e: "Max (set (map int (snd wp))) = int p" by auto
    from p wp have "p \<in> set ?all" by auto
    then have "p \<le> Max (set ?all)" by (intro Max_ge) auto
    with le e have "Max (set (map int (snd wp))) = int (Max (set ?all))" by simp
    with wp show "int (Max (set ?all)) \<in> set ?ms" unfolding ms by force
  qed
  finally show ?thesis by (simp add: abstract_length_def max_position_def)
qed

lemma position_le_max:
  "wp \<in> set idx \<Longrightarrow> p \<in> set (snd wp) \<Longrightarrow> p \<le> max_position idx"
  unfolding max_position_def by (intro Max_ge) auto

text \<open>
  C6. An empty or absent index gives the sentinel. For an index in which every word has
  at least one position, \<open>extract_abstract\<close> allocates \<open>abstract_words\<close> of length
  (maximum position) + 1, each slot holds the word recorded for its position, so a word
  with several positions is at each of them, and the result is the non-empty slots joined
  by single spaces in positional order.
\<close>

theorem extract_abstract_spec:
  "extract_abstract JNull = Inr (JStr ''No abstract available'') \<and>
   extract_abstract (index_json []) = Inr (JStr ''No abstract available'') \<and>
   (idx \<noteq> [] \<and> (\<forall>wp \<in> set idx. snd wp \<noteq> []) \<longrightarrow>
     (\<exists>abstract_words.
        length abstract_words = max_position idx + 1 \<and>
        (\<forall>p < length abstract_words. abstract_words ! p = slot_word idx p) \<and>
        extract_abstract (index_json idx) =
          Inr (JStr (join '' '' (filter (\<lambda>word. word \<noteq> []) abstract_words)))))"
proof (intro conjI impI)
  show "extract_abstract JNull = Inr (JStr ''No abstract available'')" by simp
  show "extract_abstract (index_json []) = Inr (JStr ''No abstract available'')"
    by (simp add: index_json_def)
next
  assume a: "idx \<noteq> [] \<and> (\<forall>wp \<in> set idx. snd wp \<noteq> [])"
  let ?n = "max_position idx + 1"
  let ?aw = "place_nat idx (replicate ?n [])"
  have len: "abstract_length (int_index idx) = int ?n"
    using a by (simp add: abstract_length_nat)
  have "\<forall>wp \<in> set idx. \<forall>p \<in> set (snd wp). p < length (replicate ?n ([]::string))"
    using position_le_max[of _ idx] by (auto simp: less_Suc_eq_le)
  then have pl: "place_all (replicate ?n []) (int_index idx) = Some ?aw"
    by (rule place_all_nat)
  have noempty: "\<not> list_ex (\<lambda>wp. snd wp = []) (int_index idx)"
    using a by (auto simp: list_ex_iff int_index_def)
  have nl: "nat (abstract_length (int_index idx)) = ?n"
    using len by simp
  have "abstract_of (int_index idx) = Inr (JStr (join '' '' (filter (\<lambda>word. word \<noteq> []) ?aw)))"
    by (simp only: abstract_of_def noempty nl pl if_False option.case)
  then have res: "extract_abstract (index_json idx) =
      Inr (JStr (join '' '' (filter (\<lambda>word. word \<noteq> []) ?aw)))"
    using a by (simp add: index_json_def index_positions_json)
  have l: "length ?aw = ?n" by (simp add: length_place_nat)
  have "\<forall>p < length ?aw. ?aw ! p = slot_word idx p"
  proof (intro allI impI)
    fix p assume "p < length ?aw"
    then have p: "p < ?n" unfolding l .
    have r: "replicate ?n ([]::string) ! p = []"
      using p by (rule nth_replicate)
    have "?aw ! p =
        (case filter (\<lambda>wp. p \<in> set (snd wp)) idx of
           [] \<Rightarrow> replicate ?n [] ! p | w # ws \<Rightarrow> fst (last (w # ws)))"
      by (rule nth_place_nat) (use p in simp)
    then show "?aw ! p = slot_word idx p"
      unfolding r slot_word_def .
  qed
  with l res show "\<exists>abstract_words.
        length abstract_words = max_position idx + 1 \<and>
        (\<forall>p < length abstract_words. abstract_words ! p = slot_word idx p) \<and>
        extract_abstract (index_json idx) =
          Inr (JStr (join '' '' (filter (\<lambda>word. word \<noteq> []) abstract_words)))"
    by blast
qed

text \<open>The index \<^verbatim>\<open>{"The":[0,4], "cat":[1], "sat":[2], "on":[3]}\<close> of the specification.\<close>

theorem extract_abstract_spec_witness:
  "the_cat \<noteq> [] \<and> list_all (\<lambda>wp. snd wp \<noteq> []) the_cat \<and>
   max_position the_cat + 1 = 5 \<and>
   map (slot_word the_cat) [0, 1, 2, 3, 4] = [''The'', ''cat'', ''sat'', ''on'', ''The''] \<and>
   (\<exists>abstract_words.
      length abstract_words = max_position the_cat + 1 \<and>
      (\<forall>p < length abstract_words. abstract_words ! p = slot_word the_cat p) \<and>
      extract_abstract (index_json the_cat) =
        Inr (JStr (join '' '' (filter (\<lambda>word. word \<noteq> []) abstract_words)))) \<and>
   extract_abstract (index_json the_cat) = Inr (JStr ''The cat sat on The'')"
proof -
  have h: "the_cat \<noteq> [] \<and> (\<forall>wp \<in> set the_cat. snd wp \<noteq> [])"
    by (simp add: the_cat_def)
  have h': "list_all (\<lambda>wp. snd wp \<noteq> []) the_cat"
    by (simp add: the_cat_def)
  have m: "max_position the_cat + 1 = 5"
    by (simp add: the_cat_def max_position_def)
  have s: "map (slot_word the_cat) [0, 1, 2, 3, 4] = [''The'', ''cat'', ''sat'', ''on'', ''The'']"
    by (simp add: the_cat_def slot_word_def)
  have e: "extract_abstract (index_json the_cat) = Inr (JStr ''The cat sat on The'')"
    by code_simp
  from extract_abstract_spec [of the_cat] h
  have "\<exists>abstract_words.
      length abstract_words = max_position the_cat + 1 \<and>
      (\<forall>p < length abstract_words. abstract_words ! p = slot_word the_cat p) \<and>
      extract_abstract (index_json the_cat) =
        Inr (JStr (join '' '' (filter (\<lambda>word. word \<noteq> []) abstract_words)))"
    by blast
  with h h' m s e show ?thesis by blast
qed

subsection \<open>Discovery of display names\<close>

lemma fdn_items_append:
  "fdn_items (xs @ ys) path = fdn_items xs path @ fdn_items ys path"
  by (induction xs) auto

lemma fdn_redact:
  "map fst (find_display_names (redact obj) path) = map fst (find_display_names obj path)"
  "map fst (fdn_items (redact_items kvs) path) = map fst (fdn_items kvs path)"
  "map fst (fdn_elems (redact_elems xs) i path) = map fst (fdn_elems xs i path)"
  by (induction obj path and kvs path and xs i path
      rule: find_display_names_fdn_items_fdn_elems.induct) simp_all

subsection \<open>The merge, name by name\<close>

lemma map_of_dict_set: "map_of (dict_set d k v) = (map_of d)(k \<mapsto> v)"
  by (induction d) (auto simp: fun_eq_iff)

lemma keys_dict_set: "fst ` set (dict_set d k v) = insert k (fst ` set d)"
  by (simp add: dom_map_of_conv_image_fst [symmetric] map_of_dict_set)

lemma distinct_dict_set: "distinct (map fst d) \<Longrightarrow> distinct (map fst (dict_set d k v))"
  by (induction d) (auto simp: keys_dict_set)

lemma merge_loop_foldl:
  "list_all (\<lambda>kv. py_hashable (snd kv)) data \<Longrightarrow>
   merge_loop md data = Inr (foldl merge_item md data)"
  by (induction data arbitrary: md) (auto simp: merge_item_def)

lemma merge_loop_unhashable:
  "\<not> list_all (\<lambda>kv. py_hashable (snd kv)) data \<Longrightarrow> merge_loop md data = Inl TypeError"
  by (induction data arbitrary: md) auto

lemma members_Nil: "members [] name = []"
  by (simp add: members_def)

lemma members_merge_item:
  "members (merge_item md kv) name = group_step name (members md name) kv"
  by (auto simp: members_def merge_item_def merge_step_def group_step_def normalize_key_def
      map_of_dict_set Let_def)

lemma members_foldl:
  "members (foldl merge_item md data) name = foldl (group_step name) (members md name) data"
  by (induction data arbitrary: md) (simp_all add: members_merge_item)

lemma keys_merge_item:
  "fst ` set (merge_item md kv) = insert (normalize_key (fst kv)) (fst ` set md)"
  by (auto simp: merge_item_def merge_step_def normalize_key_def keys_dict_set Let_def)

lemma keys_foldl:
  "fst ` set (foldl merge_item md data) = fst ` set md \<union> normalize_key ` fst ` set data"
  by (induction data arbitrary: md) (auto simp: keys_merge_item)

lemma distinct_merge_item:
  "distinct (map fst md) \<Longrightarrow> distinct (map fst (merge_item md kv))"
  by (auto simp: merge_item_def merge_step_def distinct_dict_set Let_def)

lemma distinct_foldl:
  "distinct (map fst md) \<Longrightarrow> distinct (map fst (foldl merge_item md data))"
  by (induction data arbitrary: md) (simp_all add: distinct_merge_item)

lemma merge_finish_ok:
  "\<forall>ks \<in> set md. merge_value (snd ks) = Inr (merge_result (snd ks)) \<Longrightarrow>
   merge_finish md = Inr (map (\<lambda>ks. (fst ks, merge_result (snd ks))) md)"
  by (induction md) auto

lemma merge_finish_fails:
  "ks \<in> set md \<Longrightarrow> merge_value (snd ks) = Inl e \<Longrightarrow> \<exists>e'. merge_finish md = Inl e'"
  by (induction md) (auto split: sum.splits)

lemma merge_finish_Inr:
  "merge_finish md = Inr out \<Longrightarrow>
   out = map (\<lambda>ks. (fst ks, merge_result (snd ks))) md \<and>
   (\<forall>ks \<in> set md. merge_value (snd ks) = Inr (merge_result (snd ks)))"
proof (induction md arbitrary: out)
  case Nil
  then show ?case by simp
next
  case (Cons ks md)
  obtain k s where ks: "ks = (k, s)" by (cases ks)
  from Cons.prems ks obtain x out' where
    x: "merge_value s = Inr x" and o: "merge_finish md = Inr out'" and out: "out = (k, x) # out'"
    by (auto split: sum.splits)
  have "x = merge_result s"
    using x by (auto simp: merge_value_def merge_result_def py_join_sorted_def split: if_splits)
  with Cons.IH[OF o] x out ks show ?case by simp
qed

lemma map_of_map_result:
  "map_of (map (\<lambda>ks. (fst ks, f (snd ks))) md) name = map_option f (map_of md name)"
  by (induction md) auto

lemma members_mem:
  "name \<in> fst ` set md \<Longrightarrow> map_of md name = Some (members md name)"
  by (auto simp: members_def split: option.splits dest: weak_map_of_SomeI simp: map_of_eq_None_iff)

text \<open>

\<close>

text \<open>What the merge returns, when it returns.\<close>

lemma merge_and_deduplicate_Inr:
  assumes "merge_and_deduplicate data = Inr out"
  shows "distinct (map fst out)"
    and "fst ` set out = normalize_key ` fst ` set data"
    and "name \<in> normalize_key ` fst ` set data \<Longrightarrow>
         map_of out name = Some (merge_result (group_of name data))"
    and "list_all (\<lambda>kv. py_hashable (snd kv)) data"
proof -
  show h: "list_all (\<lambda>kv. py_hashable (snd kv)) data"
  proof (rule ccontr)
    assume "\<not> ?thesis"
    then have "merge_loop [] data = Inl TypeError" by (rule merge_loop_unhashable)
    with assms show False by (simp add: merge_and_deduplicate_def)
  qed
  let ?md = "foldl merge_item [] data"
  from h have l: "merge_loop [] data = Inr ?md" by (rule merge_loop_foldl)
  with assms have f: "merge_finish ?md = Inr out" by (simp add: merge_and_deduplicate_def)
  from merge_finish_Inr[OF f] have out: "out = map (\<lambda>ks. (fst ks, merge_result (snd ks))) ?md"
    by simp
  have "map fst out = map fst ?md" unfolding out by (simp add: comp_def)
  then show "distinct (map fst out)" using distinct_foldl[of "[]" data] by simp
  have "fst ` set out = fst ` set ?md" unfolding out by force
  then show "fst ` set out = normalize_key ` fst ` set data" by (simp add: keys_foldl)
  assume "name \<in> normalize_key ` fst ` set data"
  then have "name \<in> fst ` set ?md" by (simp add: keys_foldl)
  then have mo: "map_of ?md name = Some (members ?md name)" by (rule members_mem)
  have m: "members ?md name = group_of name data"
    by (simp add: members_foldl group_of_def members_Nil)
  show "map_of out name = Some (merge_result (group_of name data))"
    unfolding out map_of_map_result mo m by simp
qed

text \<open>When the merge returns.\<close>

lemma merge_and_deduplicate_ok:
  assumes "list_all (\<lambda>kv. py_hashable (snd kv)) data"
    and "\<forall>name \<in> normalize_key ` fst ` set data.
           1 < length (group_of name data) \<longrightarrow> list_all is_str (group_of name data)"
  shows "\<exists>out. merge_and_deduplicate data = Inr out"
proof -
  let ?md = "foldl merge_item [] data"
  from assms(1) have l: "merge_loop [] data = Inr ?md" by (rule merge_loop_foldl)
  have "\<forall>ks \<in> set ?md. merge_value (snd ks) = Inr (merge_result (snd ks))"
  proof
    fix ks assume ks: "ks \<in> set ?md"
    then have n: "fst ks \<in> fst ` set ?md" by simp
    have "distinct (map fst ?md)" using distinct_foldl[of "[]" data] by simp
    with ks have "map_of ?md (fst ks) = Some (snd ks)"
      using map_of_is_SomeI [of ?md "fst ks" "snd ks"] by simp
    then have "snd ks = members ?md (fst ks)" by (simp add: members_def)
    then have g: "snd ks = group_of (fst ks) data"
      by (simp add: members_foldl group_of_def members_Nil)
    from n have "fst ks \<in> normalize_key ` fst ` set data" by (simp add: keys_foldl)
    with assms(2) g have "1 < length (snd ks) \<longrightarrow> list_all is_str (snd ks)" by auto
    then show "merge_value (snd ks) = Inr (merge_result (snd ks))"
      by (auto simp: merge_value_def merge_result_def py_join_sorted_def)
  qed
  from merge_finish_ok[OF this] l show ?thesis by (simp add: merge_and_deduplicate_def)
qed

subsection \<open>Keys without an index\<close>

lemma group_step_filter:
  "foldl (group_step name) s data =
   foldl (group_step name) s (filter (\<lambda>kv. normalize_key (fst kv) = name) data)"
  by (induction data arbitrary: s) (simp_all add: group_step_def)

lemma filter_single:
  assumes "distinct xs" and "x \<in> set xs" and "P x" and "\<forall>y \<in> set xs. P y \<longrightarrow> y = x"
  shows "filter P xs = [x]"
  using assms
proof (induction xs)
  case Nil
  then show ?case by simp
next
  case (Cons a xs)
  show ?case
  proof (cases "a = x")
    case True
    from Cons.prems(1) True have nx: "x \<notin> set xs" by simp
    have "\<forall>y \<in> set xs. \<not> P y"
    proof
      fix y assume y: "y \<in> set xs"
      show "\<not> P y"
      proof
        assume "P y"
        with Cons.prems(4) y have "y = x" by simp
        with y nx show False by simp
      qed
    qed
    then have "filter P xs = []" by (simp add: filter_empty_conv)
    with True Cons.prems(3) show ?thesis by simp
  next
    case False
    with Cons.prems(4) have na: "\<not> P a" by auto
    from Cons.prems(1) have d: "distinct xs" by simp
    from Cons.prems(2) False have m: "x \<in> set xs" by simp
    from Cons.prems(4) have a: "\<forall>y \<in> set xs. P y \<longrightarrow> y = x" by simp
    from Cons.IH[OF d m Cons.prems(3) a] na show ?thesis by simp
  qed
qed

lemma group_unindexed:
  assumes "distinct (map fst data)" and "kv \<in> set data" and "\<not> re_search_index (fst kv)"
    and "\<forall>kv' \<in> set data. fst kv' \<noteq> fst kv \<longrightarrow> normalize_key (fst kv') \<noteq> fst kv"
  shows "group_of (fst kv) data = [snd kv]"
proof -
  let ?P = "\<lambda>kv'. normalize_key (fst kv') = fst kv"
  have d: "distinct data" using assms(1) by (simp add: distinct_map)
  have k: "?P kv" using assms(3) by (simp add: normalize_key_def)
  have "\<forall>y \<in> set data. ?P y \<longrightarrow> y = kv"
  proof (intro ballI impI)
    fix y assume y: "y \<in> set data" and "?P y"
    with assms(4) have e: "fst y = fst kv" by auto
    from y e have "(fst kv, snd y) \<in> set data" by (metis prod.collapse)
    moreover from assms(2) have "(fst kv, snd kv) \<in> set data" by simp
    ultimately have "snd y = snd kv" by (rule eq_key_imp_eq_value[OF assms(1)])
    with e show "y = kv" by (simp add: prod_eq_iff)
  qed
  with d assms(2) k have "filter ?P data = [kv]" by (rule filter_single)
  then have "group_of (fst kv) data = foldl (group_step (fst kv)) [] [kv]"
    unfolding group_of_def by (subst group_step_filter) simp
  with assms(3) k show ?thesis by (simp add: group_step_def)
qed

subsection \<open>Exhaustive pagination\<close>

















subsection \<open>Evaluations\<close>

text \<open>
  C5. The raw keys \<^verbatim>\<open>a[0]\<close> and \<^verbatim>\<open>a\<close> normalize to the same name and hold different
  values. The branch for a key without an index assigns a new set instead of adding to
  the one collected so far, so the values are merged only when the key without an index
  comes first: \<^verbatim>\<open>{"a[0]": "x", "a": "y"}\<close> gives \<^verbatim>\<open>{"a": "y"}\<close>, and the same
  entries in the other order give \<^verbatim>\<open>{"a": "x|y"}\<close>.
\<close>

theorem merge_and_deduplicate_overwrites:
  "merge_and_deduplicate [(''a[0]'', JStr ''x''), (''a'', JStr ''y'')] = Inr [(''a'', JStr ''y'')] \<and>
   merge_and_deduplicate [(''a'', JStr ''y''), (''a[0]'', JStr ''x'')] = Inr [(''a'', JStr ''x|y'')]"
  by code_simp

text \<open>
  C2. Three authors named Zed, Amy, Zed, in this order. The generator yields one path per
  author, each with its list index, so the display-name block joins three lists of one
  name each; the final merge then collapses the three indexed keys, sorting and
  deduplicating: the field is \<^verbatim>\<open>Amy|Zed\<close>, not \<^verbatim>\<open>Zed|Amy|Zed\<close>.
\<close>

theorem display_names_sorted_and_deduplicated:
  "flat_field (parse_work (work_of_authors [''Zed'', ''Amy'', ''Zed'']) False)
     ''authorships_author_display_name'' = Some (JStr ''Amy|Zed'') \<and>
   map fst (find_display_names (work_of_authors [''Zed'', ''Amy'', ''Zed'']) []) =
     [''authorships[0].author.display_name'', ''authorships[1].author.display_name'',
      ''authorships[2].author.display_name'']"
  by code_simp

text \<open>
  C3. Fifteen authors. Every path holds one value, so the cap at 10 never applies, and the
  field lists all fifteen names.
\<close>

theorem display_names_not_capped:
  "flat_field (parse_work (work_of_authors fifteen_names) False)
     ''authorships_author_display_name'' = Some (JStr (join ''|'' fifteen_names)) \<and>
   length fifteen_names = 15 \<and>
   list_all (\<lambda>pv. length (snd pv) = 1)
     (dn_collect (find_display_names (work_of_authors fifteen_names) []) [])"
  by code_simp

subsection \<open>Display names inside display names\<close>

lemma sim_refl: "sim v v"
  by (simp add: sim_def)

lemma sim_redact: "sim v (redact v)"
  by (cases v) (simp_all add: sim_def)

lemma sim_inner: "sim v (inner_redact v)"
  by (cases v) (simp_all add: sim_def)

lemma redact_elems_map: "redact_elems xs = map redact xs"
  by (induction xs) simp_all

lemma inner_elems_map: "inner_elems xs = map inner_redact xs"
  by (induction xs) simp_all

lemma keys_redact_items: "map fst (redact_items kvs) = map fst kvs"
  by (induction kvs) auto

lemma keys_inner_items: "map fst (inner_items kvs) = map fst kvs"
  by (induction kvs) auto

lemma map_of_inner_items:
  "map_of (inner_items kvs) key =
     map_option (\<lambda>v. if str_contains ''display_name'' key then redact v else inner_redact v)
       (map_of kvs key)"
  by (induction kvs) (auto simp del: str_contains.simps)

lemma rel_refl: "rel pd pd"
  by (simp add: rel_def list_all2_refl sim_refl)

lemma rel_dict_set:
  "rel pd pd' \<Longrightarrow> sim v v' \<Longrightarrow> rel (dict_set pd k v) (dict_set pd' k v')"
  unfolding rel_def
  by (induction pd pd' rule: list_all2_induct) auto

lemma rel_hashable:
  "rel pd pd' \<Longrightarrow> list_all (\<lambda>kv. py_hashable (snd kv)) pd \<Longrightarrow> pd' = pd"
  unfolding rel_def
  by (induction pd pd' rule: list_all2_induct) (auto simp: sim_def prod_eq_iff)

lemma rel_unhashable:
  "rel pd pd' \<Longrightarrow> \<not> list_all (\<lambda>kv. py_hashable (snd kv)) pd \<Longrightarrow>
   \<not> list_all (\<lambda>kv. py_hashable (snd kv)) pd'"
  unfolding rel_def
  by (induction pd pd' rule: list_all2_induct) (auto simp: sim_def)

lemma rel_merge: "rel pd pd' \<Longrightarrow> merge_and_deduplicate pd' = merge_and_deduplicate pd"
proof (cases "list_all (\<lambda>kv. py_hashable (snd kv)) pd")
  case True
  assume "rel pd pd'"
  from rel_hashable[OF this True] show ?thesis by simp
next
  case False
  assume "rel pd pd'"
  from rel_unhashable[OF this False] False show ?thesis
    by (simp add: merge_and_deduplicate_def merge_loop_unhashable)
qed

text \<open>Looking a key up in the emptied record.\<close>

lemma py_get_inner:
  assumes "inner_redact dflt = dflt" and "redact dflt = dflt"
  shows "py_get (inner_redact obj) key dflt =
    (case py_get obj key dflt of
       Inl e \<Rightarrow> Inl e
     | Inr v \<Rightarrow> Inr (if str_contains ''display_name'' key then redact v else inner_redact v))"
  using assms
  by (cases obj) (auto simp: map_of_inner_items split: option.splits simp del: str_contains.simps)

lemma is_dict_inner: "is_dict (inner_redact v) = is_dict v"
  by (cases v) simp_all

lemma inner_items_Nil: "(inner_items kvs = []) = (kvs = [])"
  by (cases kvs) auto

lemma py_truthy_inner: "py_truthy (inner_redact v) = py_truthy v"
  by (cases v) (simp_all add: inner_items_Nil inner_elems_map)

lemma convert_publication_date_inner:
  "convert_publication_date (inner_redact v) = convert_publication_date v"
  by (cases v) simp_all

lemma py_iter_inner:
  "py_iter (inner_redact v) =
     (case py_iter v of Inl e \<Rightarrow> Inl e | Inr xs \<Rightarrow> Inr (map inner_redact xs))"
proof (cases v)
  case (JDict kvs)
  have "map (\<lambda>kv. JStr (fst kv)) (inner_items kvs) = map (\<lambda>kv. JStr (fst kv)) kvs"
    by (induction kvs) auto
  then show ?thesis using JDict by (simp add: comp_def)
qed (simp_all add: inner_elems_map comp_def)

lemma hashable_inner: "py_hashable (inner_redact v) = py_hashable v"
  by (cases v) simp_all

lemma inner_hashable: "py_hashable v \<Longrightarrow> inner_redact v = v"
  by (cases v) simp_all

lemma rel_field_loop:
  "rel pd pd' \<Longrightarrow> list_all (\<lambda>f. \<not> str_contains ''display_name'' f) fields \<Longrightarrow>
   rel (field_loop work_data fields pd) (field_loop (inner_redact work_data) fields pd')"
proof (induction fields arbitrary: pd pd')
  case Nil
  then show ?case by simp
next
  case (Cons f fields)
  let ?d = "if f = ''doi'' then JStr [] else JNull"
  from Cons.prems(2) have nf: "\<not> str_contains ''display_name'' f" by simp
  have g: "py_get (inner_redact work_data) f ?d =
      (case py_get work_data f ?d of Inl e \<Rightarrow> Inl e | Inr v \<Rightarrow> Inr (inner_redact v))"
    using nf by (subst py_get_inner) (auto split: sum.splits)
  have "rel (case py_get work_data f ?d of Inl e \<Rightarrow> pd | Inr v \<Rightarrow> dict_set pd f v)
      (case py_get (inner_redact work_data) f ?d of Inl e \<Rightarrow> pd' | Inr v \<Rightarrow> dict_set pd' f v)"
    unfolding g using Cons.prems(1)
    by (auto split: sum.splits intro: rel_dict_set sim_inner)
  from Cons.IH[OF this] Cons.prems(2) show ?case by simp
qed

lemma rel_step_ids:
  "rel pd pd' \<Longrightarrow> rel (step_ids work_data pd) (step_ids (inner_redact work_data) pd')"
  by (auto simp: step_ids_def py_get_inner split: sum.splits intro!: rel_dict_set sim_inner)

lemma rel_step_apc_paid:
  "rel pd pd' \<Longrightarrow> rel (step_apc_paid work_data pd) (step_apc_paid (inner_redact work_data) pd')"
  by (auto simp: step_apc_paid_def py_get_inner is_dict_inner split: sum.splits
      intro!: rel_dict_set sim_inner)

lemma rel_step_primary_location:
  "rel pd pd' \<Longrightarrow>
   rel (step_primary_location work_data pd) (step_primary_location (inner_redact work_data) pd')"
  by (auto simp: step_primary_location_def py_get_inner split: sum.splits
      intro!: rel_dict_set sim_inner sim_redact)

lemma rel_step_publication_date:
  "rel pd pd' \<Longrightarrow>
   rel (step_publication_date work_data pd) (step_publication_date (inner_redact work_data) pd')"
  by (auto simp: step_publication_date_def py_get_inner py_truthy_inner
      convert_publication_date_inner split: sum.splits intro!: rel_dict_set sim_refl)

lemma rel_percentile_loop:
  "rel pd pd' \<Longrightarrow> rel (percentile_loop kvs pd) (percentile_loop (inner_items kvs) pd')"
proof (induction kvs arbitrary: pd pd')
  case Nil
  then show ?case by simp
next
  case (Cons kv kvs)
  obtain key v where kv: "kv = (key, v)" by (cases kv)
  have "sim v (if str_contains ''display_name'' key then redact v else inner_redact v)"
    by (simp add: sim_redact sim_inner del: str_contains.simps)
  from Cons.IH[OF rel_dict_set[OF Cons.prems this]] show ?case
    unfolding kv by (simp del: str_contains.simps)
qed

lemma rel_step_percentiles:
  assumes "rel pd pd'"
  shows "rel (step_percentiles work_data pd) (step_percentiles (inner_redact work_data) pd')"
proof (cases "py_get work_data ''citation_normalized_percentile'' (JDict [])")
  case (Inl e)
  with assms show ?thesis by (simp add: step_percentiles_def py_get_inner)
next
  case (Inr percentiles)
  with assms show ?thesis
    by (cases percentiles) (simp_all add: step_percentiles_def py_get_inner rel_percentile_loop)
qed

lemma rel_step_open_access:
  "rel pd pd' \<Longrightarrow>
   rel (step_open_access work_data pd) (step_open_access (inner_redact work_data) pd')"
  by (auto simp: step_open_access_def py_get_inner split: sum.splits
      intro!: rel_dict_set sim_inner)

lemma rel_grants_loop:
  "rel pd pd' \<Longrightarrow> rel (grants_loop gs i pd) (grants_loop (map inner_redact gs) i pd')"
proof (induction gs arbitrary: i pd pd')
  case Nil
  then show ?case by simp
next
  case (Cons g gs)
  have g: "py_get (inner_redact g) ''funder_display_name'' JNull =
      (case py_get g ''funder_display_name'' JNull of Inl e \<Rightarrow> Inl e | Inr v \<Rightarrow> Inr (redact v))"
    by (subst py_get_inner) (auto split: sum.splits)
  show ?case
  proof (cases "py_get g ''funder_display_name'' JNull")
    case (Inl e)
    with g Cons.prems show ?thesis by simp
  next
    case (Inr v)
    from Cons.IH[OF rel_dict_set[OF Cons.prems sim_redact]] g Inr show ?thesis by simp
  qed
qed

lemma rel_step_grants:
  assumes "rel pd pd'"
  shows "rel (step_grants work_data pd) (step_grants (inner_redact work_data) pd')"
proof (cases "py_get work_data ''grants'' (JList [])")
  case (Inl e)
  with assms show ?thesis by (simp add: step_grants_def py_get_inner)
next
  case (Inr grants)
  show ?thesis
  proof (cases "py_iter grants")
    case (Inl e)
    with Inr assms show ?thesis by (simp add: step_grants_def py_get_inner py_iter_inner)
  next
    case (Inr gs)
    with \<open>py_get work_data ''grants'' (JList []) = Inr grants\<close> assms show ?thesis
      by (simp add: step_grants_def py_get_inner py_iter_inner rel_grants_loop)
  qed
qed

lemma country_loop_inner:
  "country_loop country_codes (map inner_redact authors) = country_loop country_codes authors"
proof (induction authors arbitrary: country_codes)
  case Nil
  show ?case by simp
next
  case (Cons author authors)
  have g: "py_get (inner_redact author) ''countries'' (JList []) =
      (case py_get author ''countries'' (JList []) of Inl e \<Rightarrow> Inl e
       | Inr cs \<Rightarrow> Inr (inner_redact cs))"
    by (subst py_get_inner) (auto split: sum.splits)
  show ?case
  proof (cases "py_get author ''countries'' (JList [])")
    case (Inl e)
    with g show ?thesis by simp
  next
    case (Inr cs)
    show ?thesis
    proof (cases "py_iter cs")
      case (Inl e)
      with g Inr show ?thesis by (simp add: py_iter_inner)
    next
      case r: (Inr items)
      have h: "list_all py_hashable (map inner_redact items) = list_all py_hashable items"
        by (simp add: list_all_iff hashable_inner)
      have "list_all py_hashable items \<Longrightarrow> map inner_redact items = items"
        by (simp add: list_all_iff inner_hashable map_idI)
      with g Inr r h Cons.IH show ?thesis by (simp add: py_iter_inner)
    qed
  qed
qed

lemma extract_unique_country_codes_inner:
  "extract_unique_country_codes (inner_redact a) = extract_unique_country_codes a"
  by (simp add: extract_unique_country_codes_def py_iter_inner country_loop_inner
      split: sum.splits)

lemma rel_step_countries_codes:
  "rel pd pd' \<Longrightarrow>
   rel (step_countries_codes work_data pd) (step_countries_codes (inner_redact work_data) pd')"
  by (auto simp: step_countries_codes_def py_get_inner extract_unique_country_codes_inner
      split: sum.splits intro!: rel_dict_set sim_refl)

text \<open>The display names of the emptied record.\<close>

lemma fdn_inner:
  "find_display_names (inner_redact obj) path =
     map (\<lambda>pv. (fst pv, redact (snd pv))) (find_display_names obj path)"
  "fdn_items (inner_items kvs) path =
     map (\<lambda>pv. (fst pv, redact (snd pv))) (fdn_items kvs path)"
  "fdn_elems (inner_elems xs) i path =
     map (\<lambda>pv. (fst pv, redact (snd pv))) (fdn_elems xs i path)"
proof (induction obj path and kvs path and xs i path
    rule: find_display_names_fdn_items_fdn_elems.induct)
  case (8 key v rest path)
  show ?case
  proof (cases "str_contains ''display_name'' key")
    case True
    with 8(2) show ?thesis by (simp del: str_contains.simps)
  next
    case False
    with 8(1,2) show ?thesis by (simp del: str_contains.simps)
  qed
qed simp_all

lemma map_of_redact_lists:
  "map_of (redact_lists dn) path = map_option (map redact) (map_of dn path)"
  unfolding redact_lists_def by (induction dn) auto

lemma dict_set_redact_lists:
  "dict_set (redact_lists dn) path (map redact vs) = redact_lists (dict_set dn path vs)"
  unfolding redact_lists_def by (induction dn) auto

lemma dn_collect_inner:
  "dn_collect (map (\<lambda>pv. (fst pv, redact (snd pv))) ys) (redact_lists dn) =
   redact_lists (dn_collect ys dn)"
proof (induction ys arbitrary: dn)
  case Nil
  show ?case by simp
next
  case (Cons y ys)
  obtain path v where y: "y = (path, v)" by (cases y)
  have "dict_set (redact_lists dn) path
      ((case map_of (redact_lists dn) path of None \<Rightarrow> [] | Some vs \<Rightarrow> vs) @ [redact v]) =
    redact_lists (dict_set dn path ((case map_of dn path of None \<Rightarrow> [] | Some vs \<Rightarrow> vs) @ [v]))"
    unfolding dict_set_redact_lists[symmetric] map_of_redact_lists
    by (simp split: option.splits)
  with Cons.IH show ?case unfolding y by simp
qed

lemma dn_cap_inner: "dn_cap (redact_lists dn) = redact_lists (dn_cap dn)"
  by (induction dn) (auto simp: dn_cap_def redact_lists_def take_map)

lemma is_str_redact: "is_str (redact v) = is_str v"
  by (cases v) simp_all

lemma str_of_redact: "str_of (redact v) = str_of v"
  by (cases v) simp_all

lemma py_join_redact: "py_join sep (map redact vs) = py_join sep vs"
  by (simp add: py_join_def list_all_iff is_str_redact str_of_redact comp_def)

lemma rel_dn_emit: "rel pd pd' \<Longrightarrow> rel (dn_emit dn pd) (dn_emit (redact_lists dn) pd')"
proof (induction dn arbitrary: pd pd')
  case Nil
  then show ?case by (simp add: redact_lists_def)
next
  case (Cons pv dn)
  obtain path vs where pv: "pv = (path, vs)" by (cases pv)
  have c: "redact_lists ((path, vs) # dn) = (path, map redact vs) # redact_lists dn"
    by (simp add: redact_lists_def)
  show ?case
  proof (cases "py_join ''|'' vs")
    case (Inl e)
    with Cons.prems show ?thesis unfolding pv c by (simp add: py_join_redact)
  next
    case (Inr v)
    from Cons.IH[OF rel_dict_set[OF Cons.prems sim_refl]] Inr show ?thesis
      unfolding pv c by (simp add: py_join_redact)
  qed
qed

lemma rel_step_display_names:
  assumes "rel pd pd'"
  shows "rel (step_display_names work_data pd) (step_display_names (inner_redact work_data) pd')"
proof -
  have "dn_collect (find_display_names (inner_redact work_data) []) [] =
      redact_lists (dn_collect (find_display_names work_data []) [])"
    using dn_collect_inner[of "find_display_names work_data []" "[]"]
    by (simp add: fdn_inner redact_lists_def)
  then show ?thesis
    unfolding step_display_names_def using assms by (simp add: dn_cap_inner rel_dn_emit)
qed

text \<open>The abstract of the emptied record.\<close>

lemma py_int_redact: "py_int (redact v) = py_int v"
  by (cases v) simp_all

lemma py_int_inner: "py_int (inner_redact v) = py_int v"
  by (cases v) simp_all

lemma py_int_list_redact: "py_int_list (redact v) = py_int_list v"
  by (cases v) (simp_all add: redact_elems_map list_all_iff py_int_redact comp_def)

lemma py_int_list_inner: "py_int_list (inner_redact v) = py_int_list v"
  by (cases v) (simp_all add: inner_elems_map list_all_iff py_int_inner comp_def)

lemma py_int_list_item:
  "py_int_list (if c then redact b else inner_redact b) = py_int_list b"
  by (cases c) (simp_all only: py_int_list_redact py_int_list_inner if_True if_False)

lemma index_positions_inner: "index_positions (inner_items kvs) = index_positions kvs"
proof -
  have a: "list_all (\<lambda>kv. py_int_list (snd kv) \<noteq> None) (inner_items kvs) =
      list_all (\<lambda>kv. py_int_list (snd kv) \<noteq> None) kvs"
  proof (induction kvs)
    case Nil
    show ?case by simp
  next
    case (Cons kv kvs)
    obtain k v where kv: "kv = (k, v)" by (cases kv)
    show ?case
      by (simp only: kv inner_items.simps list.pred_inject snd_conv py_int_list_item Cons.IH)
  qed
  have b: "map (\<lambda>kv. (fst kv, the (py_int_list (snd kv)))) (inner_items kvs) =
      map (\<lambda>kv. (fst kv, the (py_int_list (snd kv)))) kvs"
  proof (induction kvs)
    case Nil
    show ?case by simp
  next
    case (Cons kv kvs)
    obtain k v where kv: "kv = (k, v)" by (cases kv)
    show ?case
      by (simp only: kv inner_items.simps list.map snd_conv fst_conv py_int_list_item Cons.IH)
  qed
  show ?thesis unfolding index_positions_def a b ..
qed

lemma extract_abstract_inner: "extract_abstract (inner_redact idx) = extract_abstract idx"
  by (cases idx) (simp_all add: inner_items_Nil inner_elems_map index_positions_inner)

lemma rel_step_abstract:
  "rel pd pd' \<Longrightarrow> rel (step_abstract work_data pd) (step_abstract (inner_redact work_data) pd')"
  by (auto simp: step_abstract_def py_get_inner extract_abstract_inner
      split: sum.splits intro!: rel_dict_set sim_refl simp del: extract_abstract.simps)

lemma rel_parsed_data_of:
  "rel (parsed_data_of work_data include_abstract)
     (parsed_data_of (inner_redact work_data) include_abstract)"
proof -
  have fb: "list_all (\<lambda>f. \<not> str_contains ''display_name'' f) basic_fields"
    by (simp add: basic_fields_def)
  have fc: "list_all (\<lambda>f. \<not> str_contains ''display_name'' f) count_fields"
    by (simp add: count_fields_def)
  note r1 = rel_field_loop[OF rel_refl fb, of work_data "[]"]
  note r2 = rel_step_apc_paid[OF rel_step_ids[OF r1]]
  note r3 = rel_step_primary_location[OF rel_field_loop[OF r2 fc]]
  note r4 = rel_step_percentiles[OF rel_step_publication_date[OF r3]]
  note r5 = rel_step_grants[OF rel_step_open_access[OF r4]]
  note r6 = rel_step_display_names[OF rel_step_countries_codes[OF r5]]
  note r7 = rel_step_abstract[OF r6]
  show ?thesis
  proof (cases include_abstract)
    case True
    with r7 show ?thesis unfolding parsed_data_of_def Let_def by (simp only: if_True)
  next
    case False
    with r6 show ?thesis unfolding parsed_data_of_def Let_def by (simp only: if_False)
  qed
qed

lemma parse_work_inner:
  "parse_work (inner_redact work_data) include_abstract = parse_work work_data include_abstract"
  unfolding parse_work_def by (rule rel_merge) (rule rel_parsed_data_of)

text \<open>
  C10. An item of a dictionary whose key contains \<^verbatim>\<open>display_name\<close> yields exactly one
  pair, the path of the key with the key's immediate value, whatever that value contains.
  The paths yielded for a record are those yielded for the record with the values of such
  keys emptied: a key that occurs strictly inside the value of a display-name key is never
  yielded. And it never contributes to the flat output: \<open>parse_work\<close> returns, or raises,
  the same for a record and for the record in which every display-name key strictly inside
  the value of another one is emptied, with and without the abstract.
\<close>

theorem find_display_names_no_descent:
  "(str_contains ''display_name'' key \<longrightarrow>
      find_display_names (JDict (before @ (key, v) # after)) path =
        find_display_names (JDict before) path @ [(new_path path key, v)] @
        find_display_names (JDict after) path) \<and>
   map fst (find_display_names (redact obj) path') = map fst (find_display_names obj path') \<and>
   parse_work (inner_redact work_data) include_abstract = parse_work work_data include_abstract"
  by (simp add: fdn_items_append fdn_redact parse_work_inner)

theorem find_display_names_no_descent_witness:
  "str_contains ''display_name'' ''display_name'' \<and>
   find_display_names (JDict ([] @ (''display_name'', JDict [(''display_name'', JStr ''inner'')]) # [])) ''topics[0]'' =
     [(''topics[0].display_name'', JDict [(''display_name'', JStr ''inner'')])] \<and>
   find_display_names nested_names [] =
     [(''topics[0].display_name'', JDict [(''display_name'', JStr ''inner'')])] \<and>
   map fst (find_display_names (redact nested_names) []) = [''topics[0].display_name''] \<and>
   inner_redact nested_topics =
     JDict [(''title'', JStr ''T''),
            (''topics'', JList [JDict [(''display_name'', JStr ''Physics'')],
                                JDict [(''display_name'', JDict [(''display_name'', JNull)])]])] \<and>
   parse_work (inner_redact nested_topics) False = parse_work nested_topics False \<and>
   parse_work nested_topics False =
     Inr [(''id'', JNull), (''doi'', JStr []), (''title'', JStr ''T''),
          (''publication_year'', JNull), (''language'', JNull), (''type'', JNull),
          (''pmid'', JStr []), (''mag'', JStr []), (''apc_paid'', JNull),
          (''referenced_works_count'', JNull), (''cited_by_count'', JNull),
          (''countries_distinct_count'', JNull), (''institutions_distinct_count'', JNull),
          (''locations_count'', JNull), (''fwci'', JNull),
          (''primary_location_display_name'', JNull),
          (''primary_location_host_organization_name'', JNull),
          (''open_access_is_oa'', JNull), (''open_access_oa_status'', JNull),
          (''countries_codes'', JStr []), (''topics_display_name'', JStr ''Physics'')]"
proof -
  have c: "str_contains ''display_name'' ''display_name''" by simp
  have n: "find_display_names nested_names [] =
     [(''topics[0].display_name'', JDict [(''display_name'', JStr ''inner'')])]"
    by code_simp
  have r: "inner_redact nested_topics =
     JDict [(''title'', JStr ''T''),
            (''topics'', JList [JDict [(''display_name'', JStr ''Physics'')],
                                JDict [(''display_name'', JDict [(''display_name'', JNull)])]])]"
    by code_simp
  have p: "parse_work nested_topics False =
     Inr [(''id'', JNull), (''doi'', JStr []), (''title'', JStr ''T''),
          (''publication_year'', JNull), (''language'', JNull), (''type'', JNull),
          (''pmid'', JStr []), (''mag'', JStr []), (''apc_paid'', JNull),
          (''referenced_works_count'', JNull), (''cited_by_count'', JNull),
          (''countries_distinct_count'', JNull), (''institutions_distinct_count'', JNull),
          (''locations_count'', JNull), (''fwci'', JNull),
          (''primary_location_display_name'', JNull),
          (''primary_location_host_organization_name'', JNull),
          (''open_access_is_oa'', JNull), (''open_access_oa_status'', JNull),
          (''countries_codes'', JStr []), (''topics_display_name'', JStr ''Physics'')]"
    by code_simp
  note t = find_display_names_no_descent
    [where key = "''display_name''" and before = "[]" and after = "[]"
       and v = "JDict [(''display_name'', JStr ''inner'')]" and path = "''topics[0]''"
       and obj = nested_names and path' = "[]" and work_data = nested_topics
       and include_abstract = False]
  from t c
  have a: "find_display_names (JDict ([] @ (''display_name'', JDict [(''display_name'', JStr ''inner'')]) # [])) ''topics[0]'' =
        find_display_names (JDict []) ''topics[0]'' @
        [(new_path ''topics[0]'' ''display_name'', JDict [(''display_name'', JStr ''inner'')])] @
        find_display_names (JDict []) ''topics[0]''"
    by (simp only: simp_thms)
  from t have b: "map fst (find_display_names (redact nested_names) []) = map fst (find_display_names nested_names [])"
    by (rule conjunct2[THEN conjunct1])
  from t have d: "parse_work (inner_redact nested_topics) False = parse_work nested_topics False"
    by (rule conjunct2[THEN conjunct2])
  have a': "find_display_names (JDict ([] @ (''display_name'', JDict [(''display_name'', JStr ''inner'')]) # [])) ''topics[0]'' =
     [(''topics[0].display_name'', JDict [(''display_name'', JStr ''inner'')])]"
    unfolding a by (simp add: new_path_def)
  have b': "map fst (find_display_names (redact nested_names) []) = [''topics[0].display_name'']"
    unfolding b n by simp
  from c a' n b' r d p show ?thesis by (intro conjI)
qed

end
